theory Spec2Isabelle
  imports Main
begin

section \<open>The document tree and the findings\<close>

text \<open>
  The validator (\<^verbatim>\<open>scripts/validate.py\<close>) works on the value \<^verbatim>\<open>json.loads\<close> returns.
  A Python \<^verbatim>\<open>dict\<close> keeps its keys in insertion order, and the checks iterate in that
  order, so an object is an association list; \<open>wf_json\<close> below says that the keys of
  every object are pairwise distinct, as they are in every \<^verbatim>\<open>dict\<close>.
  A string is a list of characters, read as the code points below 256.
  A Python \<^verbatim>\<open>float\<close> is identified by the text \<^verbatim>\<open>repr\<close> gives it (\<^verbatim>\<open>3.0\<close> is
  \<open>JFloat ''3.0''\<close>): that text is all the validator ever reads of a float, apart from
  its truth value.
\<close>

datatype json =
    JNull
  | JBool bool
  | JInt int
  | JFloat string
  | JStr string
  | JArr "json list"
  | JObj "(string \<times> json) list"

type_synonym dict = "(string \<times> json) list"

fun wf_json :: "json \<Rightarrow> bool"
and wf_entries :: "dict \<Rightarrow> bool"
and wf_items :: "json list \<Rightarrow> bool" where
  "wf_json (JObj kvs) = (distinct (map fst kvs) \<and> wf_entries kvs)"
| "wf_json (JArr xs) = wf_items xs"
| "wf_json _ = True"
| "wf_entries [] = True"
| "wf_entries ((k, v) # kvs) = (wf_json v \<and> wf_entries kvs)"
| "wf_items [] = True"
| "wf_items (v # vs) = (wf_json v \<and> wf_items vs)"

text \<open>\<^verbatim>\<open>class Finding\<close>: three attributes, no validation at construction.\<close>

record finding =
  severity :: string
  path :: string
  message :: string

definition Finding :: "string \<Rightarrow> string \<Rightarrow> string \<Rightarrow> finding" where
  "Finding sev p m = \<lparr>severity = sev, path = p, message = m\<rparr>"

text \<open>The one exception the validator can raise on a decoded document.\<close>

datatype error = TypeError

section \<open>Python's dictionary and string operations\<close>

text \<open>\<^verbatim>\<open>k in d\<close>, \<^verbatim>\<open>d.get(k)\<close> (\<^verbatim>\<open>None\<close> when absent) and \<^verbatim>\<open>d.get(k, default)\<close>.\<close>

definition has_key :: "dict \<Rightarrow> string \<Rightarrow> bool" where
  "has_key d k = (map_of d k \<noteq> None)"

definition get :: "dict \<Rightarrow> string \<Rightarrow> json" where
  "get d k = (case map_of d k of None \<Rightarrow> JNull | Some v \<Rightarrow> v)"

definition get_or :: "dict \<Rightarrow> string \<Rightarrow> json \<Rightarrow> json" where
  "get_or d k dflt = (case map_of d k of None \<Rightarrow> dflt | Some v \<Rightarrow> v)"

text \<open>Truth value of a decoded JSON value (\<^verbatim>\<open>not x\<close> is its negation).\<close>

fun truthy :: "json \<Rightarrow> bool" where
  "truthy JNull = False"
| "truthy (JBool b) = b"
| "truthy (JInt i) = (i \<noteq> 0)"
| "truthy (JFloat r) = (r \<noteq> ''0.0'' \<and> r \<noteq> ''-0.0'')"
| "truthy (JStr s) = (s \<noteq> [])"
| "truthy (JArr xs) = (xs \<noteq> [])"
| "truthy (JObj kvs) = (kvs \<noteq> [])"

text \<open>\<^verbatim>\<open>s.startswith(p)\<close> and \<^verbatim>\<open>s.split(sep)\<close> for a one-character separator.\<close>

definition startswith :: "string \<Rightarrow> string \<Rightarrow> bool" where
  "startswith s p = (take (length p) s = p)"

fun split :: "char \<Rightarrow> string \<Rightarrow> string list" where
  "split sep [] = [[]]"
| "split sep (c # cs) =
     (if c = sep then [] # split sep cs
      else (case split sep cs of [] \<Rightarrow> [[c]] | w # ws \<Rightarrow> (c # w) # ws))"

text \<open>
  \<^verbatim>\<open>s.lower()\<close> on code points below 256: the ASCII capitals and the Latin-1 capitals
  \<^verbatim>\<open>U+00C0..U+00DE\<close> (the multiplication sign \<^verbatim>\<open>U+00D7\<close> apart) move up by 32.
\<close>

definition lower_char :: "char \<Rightarrow> char" where
  "lower_char c =
     (let n = (of_char c :: nat)
      in if (65 \<le> n \<and> n \<le> 90) \<or> (192 \<le> n \<and> n \<le> 222 \<and> n \<noteq> 215)
         then char_of (n + 32) else c)"

definition lower :: "string \<Rightarrow> string" where
  "lower s = map lower_char s"

definition is_ascii_lower :: "char \<Rightarrow> bool" where
  "is_ascii_lower c = (97 \<le> (of_char c :: nat) \<and> (of_char c :: nat) \<le> 122)"

definition is_ascii_upper :: "char \<Rightarrow> bool" where
  "is_ascii_upper c = (65 \<le> (of_char c :: nat) \<and> (of_char c :: nat) \<le> 90)"

text \<open>\<^verbatim>\<open>re.search(r'[a-z][A-Z]', s)\<close>: some character in a-z directly before one in A-Z.\<close>

fun search_lower_upper :: "string \<Rightarrow> bool" where
  "search_lower_upper (a # b # cs) =
     ((is_ascii_lower a \<and> is_ascii_upper b) \<or> search_lower_upper (b # cs))"
| "search_lower_upper _ = False"

subsection \<open>\<^verbatim>\<open>str(x)\<close>\<close>

text \<open>
  \<^verbatim>\<open>str\<close> of a string is the string; of anything else it is its \<^verbatim>\<open>repr\<close>:
  \<^verbatim>\<open>None\<close>, \<^verbatim>\<open>True\<close>, \<^verbatim>\<open>False\<close>, decimal digits, the float's text, and for a list or a
  dict the \<^verbatim>\<open>repr\<close> of the members between brackets or braces.
\<close>

definition digit_char :: "nat \<Rightarrow> char" where
  "digit_char d = char_of (48 + d)"

fun nat_digits :: "nat \<Rightarrow> string" where
  "nat_digits n = (if n < 10 then [digit_char n] else nat_digits (n div 10) @ [digit_char (n mod 10)])"

declare nat_digits.simps [simp del]

definition int_repr :: "int \<Rightarrow> string" where
  "int_repr i = (if i < 0 then CHR ''-'' # nat_digits (nat (- i)) else nat_digits (nat i))"

definition hex_char :: "nat \<Rightarrow> char" where
  "hex_char d = (if d < 10 then char_of (48 + d) else char_of (87 + d))"

definition hex_escape :: "char \<Rightarrow> string" where
  "hex_escape c =
     [CHR 0x5C, CHR ''x'', hex_char ((of_char c :: nat) div 16), hex_char ((of_char c :: nat) mod 16)]"

text \<open>
  \<^verbatim>\<open>repr\<close> of a string: double quotes when the string has a single quote and no double
  quote, single quotes otherwise; the quote and the backslash are escaped, tab, newline and
  carriage return are written \<^verbatim>\<open>\t \n \r\<close>, and a code point that is not printable
  (below 32, 127 to 160, and 173) is written \<^verbatim>\<open>\xNN\<close>.
\<close>

definition repr_char :: "char \<Rightarrow> char \<Rightarrow> string" where
  "repr_char quote c =
     (let n = (of_char c :: nat)
      in if c = quote \<or> c = CHR 0x5C then [CHR 0x5C, c]
         else if c = CHR 0x09 then [CHR 0x5C, CHR ''t'']
         else if c = CHR 0x0A then [CHR 0x5C, CHR ''n'']
         else if c = CHR 0x0D then [CHR 0x5C, CHR ''r'']
         else if n < 32 \<or> n = 127 then hex_escape c
         else if n < 127 then [c]
         else if n \<le> 160 \<or> n = 173 then hex_escape c
         else [c])"

definition str_repr :: "string \<Rightarrow> string" where
  "str_repr s =
     (let quote = (if CHR 0x27 \<in> set s \<and> CHR 0x22 \<notin> set s then CHR 0x22 else CHR 0x27)
      in quote # concat (map (repr_char quote) s) @ [quote])"

fun join :: "string \<Rightarrow> string list \<Rightarrow> string" where
  "join sep [] = []"
| "join sep [x] = x"
| "join sep (x # y # ys) = x @ sep @ join sep (y # ys)"

fun py_repr :: "json \<Rightarrow> string"
and repr_entries :: "dict \<Rightarrow> string list"
and repr_items :: "json list \<Rightarrow> string list" where
  "py_repr JNull = ''None''"
| "py_repr (JBool b) = (if b then ''True'' else ''False'')"
| "py_repr (JInt i) = int_repr i"
| "py_repr (JFloat r) = r"
| "py_repr (JStr s) = str_repr s"
| "py_repr (JArr xs) = ''['' @ join '', '' (repr_items xs) @ '']''"
| "py_repr (JObj kvs) = ''{'' @ join '', '' (repr_entries kvs) @ ''}''"
| "repr_entries [] = []"
| "repr_entries ((k, v) # kvs) = (str_repr k @ '': '' @ py_repr v) # repr_entries kvs"
| "repr_items [] = []"
| "repr_items (v # vs) = py_repr v # repr_items vs"

definition py_str :: "json \<Rightarrow> string" where
  "py_str v = (case v of JStr s \<Rightarrow> s | _ \<Rightarrow> py_repr v)"

section \<open>The helpers of the validator\<close>

definition VALID_HTTP_METHODS :: "string set" where
  "VALID_HTTP_METHODS =
     {''get'', ''put'', ''post'', ''delete'', ''options'', ''head'', ''patch'', ''trace''}"

definition is_camel_case :: "string \<Rightarrow> bool" where
  "is_camel_case segment =
     (if segment = [] \<or> startswith segment ''{'' then False else search_lower_upper segment)"

definition is_snake_case :: "string \<Rightarrow> bool" where
  "is_snake_case segment =
     (if segment = [] \<or> startswith segment ''{'' then False else CHR ''_'' \<in> set segment)"

text \<open>
  \<^verbatim>\<open>refs.add(v)\<close>: a set holds hashable values only; a list or a dict is not hashable and
  \<^verbatim>\<open>add\<close> raises \<^verbatim>\<open>TypeError\<close>.
\<close>

fun hashable :: "json \<Rightarrow> bool" where
  "hashable (JArr xs) = False"
| "hashable (JObj kvs) = False"
| "hashable _ = True"

definition set_add :: "json \<Rightarrow> json set \<Rightarrow> error + json set" where
  "set_add v refs = (if hashable v then Inr (insert v refs) else Inl TypeError)"

text \<open>
  \<^verbatim>\<open>collect_schema_refs(obj, refs)\<close> with the set \<open>refs\<close> threaded through: on a dict it
  adds the value of the key \<^verbatim>\<open>$ref\<close> when there is one, then visits every value of the
  dict (that of \<^verbatim>\<open>$ref\<close> too); on a list it visits every item. An exception ends the walk.
\<close>

fun collect_refs_into :: "json \<Rightarrow> json set \<Rightarrow> error + json set"
and collect_values :: "dict \<Rightarrow> json set \<Rightarrow> error + json set"
and collect_items :: "json list \<Rightarrow> json set \<Rightarrow> error + json set" where
  "collect_refs_into (JObj kvs) refs =
     (case (if has_key kvs ''$ref'' then set_add (get kvs ''$ref'') refs else Inr refs) of
        Inl e \<Rightarrow> Inl e
      | Inr refs' \<Rightarrow> collect_values kvs refs')"
| "collect_refs_into (JArr xs) refs = collect_items xs refs"
| "collect_refs_into JNull refs = Inr refs"
| "collect_refs_into (JBool b) refs = Inr refs"
| "collect_refs_into (JInt i) refs = Inr refs"
| "collect_refs_into (JFloat r) refs = Inr refs"
| "collect_refs_into (JStr s) refs = Inr refs"
| "collect_values [] refs = Inr refs"
| "collect_values ((k, v) # kvs) refs =
     (case collect_refs_into v refs of Inl e \<Rightarrow> Inl e | Inr refs' \<Rightarrow> collect_values kvs refs')"
| "collect_items [] refs = Inr refs"
| "collect_items (v # vs) refs =
     (case collect_refs_into v refs of Inl e \<Rightarrow> Inl e | Inr refs' \<Rightarrow> collect_items vs refs')"

text \<open>The call \<^verbatim>\<open>collect_schema_refs(spec)\<close>: \<open>refs\<close> is \<^verbatim>\<open>None\<close>, so a fresh empty set.\<close>

definition collect_schema_refs :: "json \<Rightarrow> error + json set" where
  "collect_schema_refs obj = collect_refs_into obj {}"

section \<open>\<^verbatim>\<open>validate_spec\<close>, check by check\<close>

text \<open>
  Each block of \<^verbatim>\<open>validate_spec\<close> is a definition that returns the findings the block
  appends, in the order it appends them; \<open>validate_spec\<close> below runs the blocks in the
  order of the source. \<open>quoted s\<close> is \<open>s\<close> between two apostrophes.
\<close>

definition quoted :: "string \<Rightarrow> string" where
  "quoted s = CHR 0x27 # s @ [CHR 0x27]"

text \<open>Lines 68 to 73: the \<^verbatim>\<open>openapi\<close> version field.\<close>

definition missing_version :: finding where
  "missing_version =
     Finding ''error'' ''openapi'' (''Missing required '' @ quoted ''openapi'' @ '' version field'')"

definition unsupported_version :: "string \<Rightarrow> finding" where
  "unsupported_version version =
     Finding ''error'' ''openapi''
       (''Unsupported OpenAPI version: '' @ version @ '' (expected 3.0.x or 3.1.x)'')"

definition check_version :: "dict \<Rightarrow> finding list" where
  "check_version spec =
     (if \<not> has_key spec ''openapi'' then [missing_version]
      else (let version = py_str (get spec ''openapi'')
            in if \<not> (startswith version ''3.0'' \<or> startswith version ''3.1'')
               then [unsupported_version version]
               else []))"

text \<open>Lines 76 to 81: \<^verbatim>\<open>info\<close> and \<^verbatim>\<open>info.title\<close>.\<close>

definition check_info :: "json \<Rightarrow> finding list" where
  "check_info info =
     (case info of
        JObj d \<Rightarrow>
          (if \<not> has_key d ''title'' \<or> \<not> truthy (get d ''title'')
           then [Finding ''error'' ''info.title''
                   (''Missing required '' @ quoted ''info.title'' @ '' field'')]
           else [])
      | _ \<Rightarrow> [Finding ''error'' ''info'' (''Missing required '' @ quoted ''info'' @ '' object'')])"

text \<open>Lines 84 and 85: the key \<^verbatim>\<open>paths\<close> must be there.\<close>

definition check_paths_present :: "dict \<Rightarrow> finding list" where
  "check_paths_present spec =
     (if \<not> has_key spec ''paths''
      then [Finding ''error'' ''paths'' (''Missing required '' @ quoted ''paths'' @ '' object'')]
      else [])"

text \<open>Lines 88 to 102: the keys of every path item that is a dict.\<close>

definition reserved_keys :: "string set" where
  "reserved_keys = {''parameters'', ''summary'', ''description'', ''servers'', ''$ref''}"

definition method_finding :: "string \<Rightarrow> string \<Rightarrow> finding" where
  "method_finding path_key method_key =
     Finding ''error'' (''paths.'' @ path_key @ ''.'' @ method_key)
       (''Invalid HTTP method: '' @ quoted method_key)"

definition check_method_key :: "string \<Rightarrow> string \<Rightarrow> finding list" where
  "check_method_key path_key method_key =
     (if method_key \<in> reserved_keys then []
      else if lower method_key \<notin> VALID_HTTP_METHODS then [method_finding path_key method_key]
      else [])"

definition check_path_item_methods :: "string \<times> json \<Rightarrow> finding list" where
  "check_path_item_methods entry =
     (case entry of (path_key, path_item) \<Rightarrow>
        (case path_item of
           JObj item \<Rightarrow> concat (map (check_method_key path_key) (map fst item))
         | _ \<Rightarrow> []))"

definition check_methods :: "json \<Rightarrow> finding list" where
  "check_methods paths =
     (case paths of JObj ps \<Rightarrow> concat (map check_path_item_methods ps) | _ \<Rightarrow> [])"

text \<open>Lines 107 and 108: \<^verbatim>\<open>info.description\<close>.\<close>

definition check_info_description :: "json \<Rightarrow> finding list" where
  "check_info_description info =
     (case info of
        JObj d \<Rightarrow>
          (if \<not> has_key d ''description'' \<or> \<not> truthy (get d ''description'')
           then [Finding ''warning'' ''info.description'' (''Missing '' @ quoted ''info.description'')]
           else [])
      | _ \<Rightarrow> [])"

text \<open>Lines 111 to 141: every operation, and every response of an operation.\<close>

definition check_response :: "string \<Rightarrow> string \<times> json \<Rightarrow> finding list" where
  "check_response op_path entry =
     (case entry of (status_code, response_obj) \<Rightarrow>
        (case response_obj of
           JObj r \<Rightarrow>
             (if \<not> truthy (get r ''description'')
              then [Finding ''warning'' (op_path @ ''.responses.'' @ status_code)
                      (''Response is missing '' @ quoted ''description'')]
              else [])
         | _ \<Rightarrow> []))"

definition check_operation :: "string \<Rightarrow> string \<times> json \<Rightarrow> finding list" where
  "check_operation path_key entry =
     (case entry of (method_key, operation) \<Rightarrow>
        (if lower method_key \<notin> VALID_HTTP_METHODS then []
         else (case operation of
                 JObj opn \<Rightarrow>
                   (let op_path = ''paths.'' @ path_key @ ''.'' @ method_key;
                        has_summary = get opn ''summary'';
                        has_description = get opn ''description''
                    in (if \<not> truthy has_summary \<and> \<not> truthy has_description
                        then [Finding ''warning'' op_path
                                (''Operation is missing both '' @ quoted ''summary''
                                   @ '' and '' @ quoted ''description'')]
                        else [])
                       @ (case get_or opn ''responses'' (JObj []) of
                            JObj responses \<Rightarrow> concat (map (check_response op_path) responses)
                          | _ \<Rightarrow> []))
               | _ \<Rightarrow> [])))"

definition check_path_item_operations :: "string \<times> json \<Rightarrow> finding list" where
  "check_path_item_operations entry =
     (case entry of (path_key, path_item) \<Rightarrow>
        (case path_item of
           JObj item \<Rightarrow> concat (map (check_operation path_key) item)
         | _ \<Rightarrow> []))"

definition check_operations :: "json \<Rightarrow> finding list" where
  "check_operations paths =
     (case paths of JObj ps \<Rightarrow> concat (map check_path_item_operations ps) | _ \<Rightarrow> [])"

text \<open>
  Lines 144 to 161: path naming. The state of the two loops is the pair of lists
  \<^verbatim>\<open>camel_paths\<close> and \<^verbatim>\<open>snake_paths\<close>; the inner loop leaves at the first segment that
  is camelCase or snake_case, having asked for camelCase first.
\<close>

definition path_segments :: "string \<Rightarrow> string list" where
  "path_segments path_key =
     filter (\<lambda>s. s \<noteq> [] \<and> \<not> startswith s ''{'') (split (CHR ''/'') path_key)"

fun scan_segments :: "string \<Rightarrow> string list \<Rightarrow> string list \<times> string list \<Rightarrow> string list \<times> string list" where
  "scan_segments path_key [] (camel_paths, snake_paths) = (camel_paths, snake_paths)"
| "scan_segments path_key (seg # segs) (camel_paths, snake_paths) =
     (if is_camel_case seg then (camel_paths @ [path_key], snake_paths)
      else if is_snake_case seg then (camel_paths, snake_paths @ [path_key])
      else scan_segments path_key segs (camel_paths, snake_paths))"

fun scan_paths :: "string list \<Rightarrow> string list \<times> string list \<Rightarrow> string list \<times> string list" where
  "scan_paths [] acc = acc"
| "scan_paths (path_key # keys) acc =
     scan_paths keys (scan_segments path_key (path_segments path_key) acc)"

definition naming_finding :: finding where
  "naming_finding =
     Finding ''warning'' ''paths''
       ''Inconsistent path naming: mix of camelCase and snake_case detected''"

definition check_naming :: "json \<Rightarrow> finding list" where
  "check_naming paths =
     (case paths of
        JObj ps \<Rightarrow>
          (case scan_paths (map fst ps) ([], []) of (camel_paths, snake_paths) \<Rightarrow>
             (if camel_paths \<noteq> [] \<and> snake_paths \<noteq> [] then [naming_finding] else []))
      | _ \<Rightarrow> [])"

text \<open>
  Lines 164 to 176: schemas nobody refers to. This is the one block that can raise:
  \<^verbatim>\<open>collect_schema_refs\<close> runs when \<^verbatim>\<open>components.schemas\<close> is a non-empty dict.
\<close>

definition ref_string :: "string \<Rightarrow> string" where
  "ref_string schema_name = ''#/components/schemas/'' @ schema_name"

definition schema_finding :: "string \<Rightarrow> finding" where
  "schema_finding schema_name =
     Finding ''warning'' (''components.schemas.'' @ schema_name)
       (''Schema '' @ quoted schema_name @ '' is defined but never referenced'')"

definition check_schema :: "json set \<Rightarrow> string \<Rightarrow> finding list" where
  "check_schema all_refs schema_name =
     (if JStr (ref_string schema_name) \<notin> all_refs then [schema_finding schema_name] else [])"

definition check_unused_schemas :: "dict \<Rightarrow> error + finding list" where
  "check_unused_schemas spec =
     (case get_or spec ''components'' (JObj []) of
        JObj components \<Rightarrow>
          (case get_or components ''schemas'' (JObj []) of
             JObj schemas \<Rightarrow>
               (if schemas \<noteq> []
                then (case collect_schema_refs (JObj spec) of
                        Inl e \<Rightarrow> Inl e
                      | Inr all_refs \<Rightarrow> Inr (concat (map (check_schema all_refs) (map fst schemas))))
                else Inr [])
           | _ \<Rightarrow> Inr [])
      | _ \<Rightarrow> Inr [])"

text \<open>The whole function: the findings of the blocks, in the order of the source.\<close>

definition validate_spec :: "dict \<Rightarrow> error + finding list" where
  "validate_spec spec =
     (let findings = check_version spec;
          info = get spec ''info'';
          findings = findings @ check_info info;
          findings = findings @ check_paths_present spec;
          paths = get_or spec ''paths'' (JObj []);
          findings = findings @ check_methods paths;
          findings = findings @ check_info_description info;
          findings = findings @ check_operations paths;
          findings = findings @ check_naming paths
      in (case check_unused_schemas spec of
            Inl e \<Rightarrow> Inl e
          | Inr unused \<Rightarrow> Inr (findings @ unused)))"

section \<open>Strict mode in \<^verbatim>\<open>main\<close>\<close>

text \<open>Lines 224 to 230: the loop that promotes warnings, and the two lists counted after it.\<close>

fun promote :: "finding list \<Rightarrow> finding list" where
  "promote [] = []"
| "promote (f_item # rest) =
     (if severity f_item = ''warning'' then f_item\<lparr>severity := ''error''\<rparr> else f_item)
       # promote rest"

definition errors_of :: "finding list \<Rightarrow> finding list" where
  "errors_of findings = filter (\<lambda>f_item. severity f_item = ''error'') findings"

definition warnings_of :: "finding list \<Rightarrow> finding list" where
  "warnings_of findings = filter (\<lambda>f_item. severity f_item = ''warning'') findings"

section \<open>What the checks are measured against\<close>

text \<open>
  The values of the \<^verbatim>\<open>$ref\<close> keys that the walk of \<open>collect_refs_into\<close> meets: of a dict,
  the value of its key \<^verbatim>\<open>$ref\<close> and what is met in each of its values; of a list, what is
  met in each item.
\<close>

fun ref_targets :: "json \<Rightarrow> json set"
and ref_targets_values :: "dict \<Rightarrow> json set"
and ref_targets_items :: "json list \<Rightarrow> json set" where
  "ref_targets (JObj kvs) =
     (if has_key kvs ''$ref'' then {get kvs ''$ref''} else {}) \<union> ref_targets_values kvs"
| "ref_targets (JArr xs) = ref_targets_items xs"
| "ref_targets JNull = {}"
| "ref_targets (JBool b) = {}"
| "ref_targets (JInt i) = {}"
| "ref_targets (JFloat r) = {}"
| "ref_targets (JStr s) = {}"
| "ref_targets_values [] = {}"
| "ref_targets_values ((k, v) # kvs) = ref_targets v \<union> ref_targets_values kvs"
| "ref_targets_items [] = {}"
| "ref_targets_items (v # vs) = ref_targets v \<union> ref_targets_items vs"

text \<open>
  The reference index in the words of the specification (section 4.6): every value of
  every \<^verbatim>\<open>$ref\<close> key met while descending into objects and sequences, the value of a
  \<^verbatim>\<open>$ref\<close> key itself not being descended into.
\<close>

fun spec_ref_index :: "json \<Rightarrow> json set"
and spec_ref_index_values :: "dict \<Rightarrow> json set"
and spec_ref_index_items :: "json list \<Rightarrow> json set" where
  "spec_ref_index (JObj kvs) =
     (if has_key kvs ''$ref'' then {get kvs ''$ref''} else {}) \<union> spec_ref_index_values kvs"
| "spec_ref_index (JArr xs) = spec_ref_index_items xs"
| "spec_ref_index JNull = {}"
| "spec_ref_index (JBool b) = {}"
| "spec_ref_index (JInt i) = {}"
| "spec_ref_index (JFloat r) = {}"
| "spec_ref_index (JStr s) = {}"
| "spec_ref_index_values [] = {}"
| "spec_ref_index_values ((k, v) # kvs) =
     (if k = ''$ref'' then {} else spec_ref_index v) \<union> spec_ref_index_values kvs"
| "spec_ref_index_items [] = {}"
| "spec_ref_index_items (v # vs) = spec_ref_index v \<union> spec_ref_index_items vs"

text \<open>
  Path naming as the loop of lines 147 to 155 decides it: the first segment that is
  camelCase or snake_case decides, and it counts as camelCase when it is both.
\<close>

definition decisive_segment :: "string \<Rightarrow> string option" where
  "decisive_segment path_key =
     find (\<lambda>seg. is_camel_case seg \<or> is_snake_case seg) (path_segments path_key)"

definition camel_path :: "string \<Rightarrow> bool" where
  "camel_path path_key =
     (case decisive_segment path_key of None \<Rightarrow> False | Some seg \<Rightarrow> is_camel_case seg)"

definition snake_path :: "string \<Rightarrow> bool" where
  "snake_path path_key =
     (case decisive_segment path_key of None \<Rightarrow> False | Some seg \<Rightarrow> \<not> is_camel_case seg)"

text \<open>
  Path naming in the words of the claim: camelCase when any segment has a lower-case letter
  directly before an upper-case one, otherwise snake_case when any segment has an
  underscore; the warning when some path key is camelCase and some path key is snake_case.
\<close>

definition claimed_camel :: "string \<Rightarrow> bool" where
  "claimed_camel path_key = list_ex search_lower_upper (path_segments path_key)"

definition claimed_snake :: "string \<Rightarrow> bool" where
  "claimed_snake path_key =
     (\<not> claimed_camel path_key \<and> list_ex (\<lambda>seg. CHR ''_'' \<in> set seg) (path_segments path_key))"

definition claimed_naming_warning :: "string list \<Rightarrow> bool" where
  "claimed_naming_warning path_keys =
     (list_ex claimed_camel path_keys \<and> list_ex claimed_snake path_keys)"

section \<open>What each check can append\<close>

lemma validate_spec_Inr:
  "validate_spec spec = Inr fs \<longleftrightarrow>
     (\<exists>unused. check_unused_schemas spec = Inr unused \<and>
        fs = check_version spec @ check_info (get spec ''info'') @ check_paths_present spec
             @ check_methods (get_or spec ''paths'' (JObj []))
             @ check_info_description (get spec ''info'')
             @ check_operations (get_or spec ''paths'' (JObj []))
             @ check_naming (get_or spec ''paths'' (JObj [])) @ unused)"
  by (auto simp: validate_spec_def Let_def split: sum.splits)

lemma check_version_shape:
  "f \<in> set (check_version spec) \<Longrightarrow> severity f = ''error'' \<and> path f = ''openapi''"
  by (auto simp: check_version_def Let_def missing_version_def unsupported_version_def Finding_def
      split: if_splits)

lemma check_info_shape:
  "f \<in> set (check_info i) \<Longrightarrow> severity f = ''error'' \<and> (path f = ''info'' \<or> path f = ''info.title'')"
  by (cases i) (auto simp: check_info_def Finding_def split: if_splits)

lemma check_paths_present_shape:
  "f \<in> set (check_paths_present spec) \<Longrightarrow> severity f = ''error'' \<and> path f = ''paths''"
  by (auto simp: check_paths_present_def Finding_def split: if_splits)

lemma check_methods_shape:
  "f \<in> set (check_methods paths) \<Longrightarrow>
     \<exists>ps path_key item method_key. paths = JObj ps \<and> (path_key, JObj item) \<in> set ps \<and>
        (\<exists>operation. (method_key, operation) \<in> set item) \<and> method_key \<notin> reserved_keys \<and>
        lower method_key \<notin> VALID_HTTP_METHODS \<and> f = method_finding path_key method_key"
  apply (cases paths; simp add: check_methods_def)
  apply (clarsimp simp: check_path_item_methods_def split: json.splits)
  apply (clarsimp simp: check_method_key_def split: if_splits)
  apply blast
  done

lemma check_methods_member:
  "(path_key, JObj item) \<in> set ps \<Longrightarrow> (method_key, operation) \<in> set item \<Longrightarrow>
   method_key \<notin> reserved_keys \<Longrightarrow> lower method_key \<notin> VALID_HTTP_METHODS \<Longrightarrow>
   method_finding path_key method_key \<in> set (check_methods (JObj ps))"
  apply (simp add: check_methods_def)
  apply (rule bexI [where x = "(path_key, JObj item)"])
   apply (simp add: check_path_item_methods_def)
   apply (rule bexI [where x = "(method_key, operation)"])
    apply (simp add: check_method_key_def)
   apply assumption
  apply assumption
  done

lemma check_info_description_shape:
  "f \<in> set (check_info_description i) \<Longrightarrow> severity f = ''warning'' \<and> path f = ''info.description''"
  by (cases i) (auto simp: check_info_description_def Finding_def split: if_splits)

lemma check_response_shape:
  "f \<in> set (check_response op_path e) \<Longrightarrow>
     severity f = ''warning'' \<and> (\<exists>rest. path f = op_path @ ''.responses.'' @ rest)"
  by (cases e) (auto simp: check_response_def Finding_def split: json.splits if_splits)

lemma check_operation_shape:
  "f \<in> set (check_operation path_key e) \<Longrightarrow>
     severity f = ''warning'' \<and> (\<exists>rest. path f = ''paths.'' @ rest)"
  apply (cases e)
  apply (auto simp: check_operation_def Let_def Finding_def split: json.splits if_splits
      dest!: check_response_shape)
  done

lemma check_operations_shape:
  "f \<in> set (check_operations paths) \<Longrightarrow>
     severity f = ''warning'' \<and> (\<exists>rest. path f = ''paths.'' @ rest)"
  apply (cases paths; simp add: check_operations_def)
  apply (clarsimp simp: check_path_item_operations_def split: json.splits)
  apply (drule check_operation_shape)
  apply simp
  done

lemma check_naming_shape:
  "f \<in> set (check_naming paths) \<Longrightarrow> f = naming_finding"
  by (cases paths) (auto simp: check_naming_def split: prod.splits if_splits)

lemma check_unused_schemas_shape:
  "check_unused_schemas spec = Inr unused \<Longrightarrow> f \<in> set unused \<Longrightarrow>
     \<exists>schema_name. f = schema_finding schema_name"
  by (auto simp: check_unused_schemas_def check_schema_def
      split: json.splits if_splits sum.splits)

section \<open>The version check\<close>

lemma filter_none: "(\<And>f. f \<in> set xs \<Longrightarrow> \<not> P f) \<Longrightarrow> filter P xs = []"
  by (induction xs) auto

lemma filter_all: "(\<And>f. f \<in> set xs \<Longrightarrow> P f) \<Longrightarrow> filter P xs = xs"
  by (induction xs) auto

lemma openapi_findings:
  assumes "validate_spec spec = Inr fs"
  shows "filter (\<lambda>f. path f = ''openapi'') fs = check_version spec"
proof -
  let ?P = "\<lambda>f. path f = ''openapi''"
  from assms obtain unused where u: "check_unused_schemas spec = Inr unused"
    and fs: "fs = check_version spec @ check_info (get spec ''info'') @ check_paths_present spec
             @ check_methods (get_or spec ''paths'' (JObj []))
             @ check_info_description (get spec ''info'')
             @ check_operations (get_or spec ''paths'' (JObj []))
             @ check_naming (get_or spec ''paths'' (JObj [])) @ unused"
    by (auto simp: validate_spec_Inr)
  have 1: "filter ?P (check_version spec) = check_version spec"
    by (rule filter_all) (simp add: check_version_shape)
  have 2: "filter ?P (check_info (get spec ''info'')) = []"
    by (rule filter_none) (auto dest: check_info_shape)
  have 3: "filter ?P (check_paths_present spec) = []"
    by (rule filter_none) (auto dest: check_paths_present_shape)
  have 4: "filter ?P (check_methods (get_or spec ''paths'' (JObj []))) = []"
    by (rule filter_none) (auto dest!: check_methods_shape simp: method_finding_def Finding_def)
  have 5: "filter ?P (check_info_description (get spec ''info'')) = []"
    by (rule filter_none) (auto dest: check_info_description_shape)
  have 6: "filter ?P (check_operations (get_or spec ''paths'' (JObj []))) = []"
    by (rule filter_none) (auto dest!: check_operations_shape)
  have 7: "filter ?P (check_naming (get_or spec ''paths'' (JObj []))) = []"
    by (rule filter_none) (auto dest!: check_naming_shape simp: naming_finding_def Finding_def)
  have 8: "filter ?P unused = []"
    by (rule filter_none) (auto dest!: check_unused_schemas_shape [OF u] simp: schema_finding_def Finding_def)
  show ?thesis
    unfolding fs by (simp only: filter_append 1 2 3 4 5 6 7 8 append_Nil2)
qed

lemma collect_schema_refs_prepend_version:
  "collect_schema_refs (JObj ((''openapi'', JStr v) # spec)) = collect_schema_refs (JObj spec)"
  by (simp add: collect_schema_refs_def has_key_def get_def split: sum.splits)

lemma check_unused_schemas_prepend_version:
  "check_unused_schemas ((''openapi'', JStr v) # spec) = check_unused_schemas spec"
  unfolding check_unused_schemas_def collect_schema_refs_prepend_version
  by (simp add: get_or_def)

lemma validate_spec_prepend_version:
  assumes "\<not> has_key spec ''openapi''" "startswith v ''3.0'' \<or> startswith v ''3.1''"
  shows "validate_spec spec =
           map_sum id ((#) missing_version) (validate_spec ((''openapi'', JStr v) # spec))"
  using assms
  by (auto simp: validate_spec_def check_unused_schemas_prepend_version check_version_def
      check_paths_present_def has_key_def get_def get_or_def py_str_def Let_def split: sum.splits)

section \<open>Strict-mode promotion\<close>

lemma promote_length: "length (promote fs) = length fs"
  by (induction fs) auto

lemma promote_path: "map path (promote fs) = map path fs"
  by (induction fs) auto

lemma promote_message: "map message (promote fs) = map message fs"
  by (induction fs) auto

lemma promote_nth:
  "i < length fs \<Longrightarrow>
     promote fs ! i = (if severity (fs ! i) = ''warning'' then (fs ! i)\<lparr>severity := ''error''\<rparr> else fs ! i)"
proof (induction fs arbitrary: i)
  case Nil
  then show ?case by simp
next
  case (Cons f fs)
  then show ?case by (cases i) auto
qed

lemma promote_no_warnings: "warnings_of (promote fs) = []"
  by (induction fs) (auto simp: warnings_of_def)

lemma promote_error_count:
  "length (errors_of (promote fs)) = length (errors_of fs) + length (warnings_of fs)"
  by (induction fs) (auto simp: errors_of_def warnings_of_def)

text \<open>
  Claim C5. Promotion keeps the length of the list, the path and the message at every
  position (so the order too); at every position a warning becomes an error and any other
  finding stays as it is; afterwards no warning is left, and the number of errors is the
  old number of errors plus the old number of warnings, so it has not gone down.
\<close>

theorem strict_mode_promotion:
  "length (promote fs) = length fs
   \<and> map path (promote fs) = map path fs
   \<and> map message (promote fs) = map message fs
   \<and> (\<forall>i < length fs.
         (severity (fs ! i) = ''warning'' \<longrightarrow> severity (promote fs ! i) = ''error'')
       \<and> (severity (fs ! i) \<noteq> ''warning'' \<longrightarrow> promote fs ! i = fs ! i))
   \<and> length (warnings_of (promote fs)) = 0
   \<and> length (errors_of fs) \<le> length (errors_of (promote fs))
   \<and> length (errors_of (promote fs)) = length (errors_of fs) + length (warnings_of fs)"
  by (simp add: promote_length promote_path promote_message promote_nth promote_no_warnings
      promote_error_count)

theorem strict_mode_promotion_witness:
  "promote [Finding ''warning'' ''info.description'' ''m1'', Finding ''error'' ''paths'' ''m2'',
            Finding ''warning'' ''paths'' ''m3'']
     = [Finding ''error'' ''info.description'' ''m1'', Finding ''error'' ''paths'' ''m2'',
        Finding ''error'' ''paths'' ''m3'']
   \<and> length (warnings_of (promote [Finding ''warning'' ''info.description'' ''m1'',
        Finding ''error'' ''paths'' ''m2'', Finding ''warning'' ''paths'' ''m3''])) = 0
   \<and> length (errors_of [Finding ''warning'' ''info.description'' ''m1'',
        Finding ''error'' ''paths'' ''m2'', Finding ''warning'' ''paths'' ''m3''])
       \<le> length (errors_of (promote [Finding ''warning'' ''info.description'' ''m1'',
        Finding ''error'' ''paths'' ''m2'', Finding ''warning'' ''paths'' ''m3'']))"
  using strict_mode_promotion [of "[Finding ''warning'' ''info.description'' ''m1'',
        Finding ''error'' ''paths'' ''m2'', Finding ''warning'' ''paths'' ''m3'']"]
  by (simp add: Finding_def)

section \<open>The version field (lines 68 to 73)\<close>

text \<open>
  The version check, on every document for which \<open>validate_spec\<close> returns. A document with no key
  \<^verbatim>\<open>openapi\<close> has exactly one finding at path \<^verbatim>\<open>openapi\<close>, the error "Missing required
  'openapi' version field"; it is the first finding, and the findings after it are exactly
  the findings of the same document with a supported version put in, so no other check was
  skipped. A document with the key has one finding at that path, the error naming
  \<^verbatim>\<open>str\<close> of the value and the expected prefixes, when that text starts with neither
  \<^verbatim>\<open>3.0\<close> nor \<^verbatim>\<open>3.1\<close>, and none otherwise.
\<close>

lemma returned_version_findings:
  assumes "validate_spec spec = Inr fs"
  shows "(\<not> has_key spec ''openapi'' \<longrightarrow>
            filter (\<lambda>f. path f = ''openapi'') fs = [missing_version]
          \<and> missing_version =
              Finding ''error'' ''openapi'' ''Missing required 'openapi' version field''
          \<and> fs = missing_version # tl fs
          \<and> validate_spec ((''openapi'', JStr ''3.0.0'') # spec) = Inr (tl fs))
       \<and> (has_key spec ''openapi'' \<longrightarrow>
            filter (\<lambda>f. path f = ''openapi'') fs =
              (if startswith (py_str (get spec ''openapi'')) ''3.0''
                  \<or> startswith (py_str (get spec ''openapi'')) ''3.1''
               then []
               else [Finding ''error'' ''openapi''
                       (''Unsupported OpenAPI version: '' @ py_str (get spec ''openapi'')
                          @ '' (expected 3.0.x or 3.1.x)'')]))"
proof (intro conjI impI)
  assume no: "\<not> has_key spec ''openapi''"
  from openapi_findings [OF assms] no
  show "filter (\<lambda>f. path f = ''openapi'') fs = [missing_version]"
    by (simp add: check_version_def)
  show "missing_version = Finding ''error'' ''openapi'' ''Missing required 'openapi' version field''"
    by (simp add: missing_version_def quoted_def)
  have "validate_spec spec =
          map_sum id ((#) missing_version) (validate_spec ((''openapi'', JStr ''3.0.0'') # spec))"
    by (rule validate_spec_prepend_version [OF no]) (simp add: startswith_def)
  with assms obtain rest where r: "validate_spec ((''openapi'', JStr ''3.0.0'') # spec) = Inr rest"
    and fs: "fs = missing_version # rest"
    by (cases "validate_spec ((''openapi'', JStr ''3.0.0'') # spec)") auto
  from fs show "fs = missing_version # tl fs" by simp
  from r fs show "validate_spec ((''openapi'', JStr ''3.0.0'') # spec) = Inr (tl fs)" by simp
next
  assume "has_key spec ''openapi''"
  with openapi_findings [OF assms]
  show "filter (\<lambda>f. path f = ''openapi'') fs =
              (if startswith (py_str (get spec ''openapi'')) ''3.0''
                  \<or> startswith (py_str (get spec ''openapi'')) ''3.1''
               then []
               else [Finding ''error'' ''openapi''
                       (''Unsupported OpenAPI version: '' @ py_str (get spec ''openapi'')
                          @ '' (expected 3.0.x or 3.1.x)'')])"
    by (simp add: check_version_def unsupported_version_def Let_def)
qed

lemma returned_version_findings_example:
  "validate_spec [(''info'', JObj [(''title'', JStr ''T''), (''description'', JStr ''d'')]),
                  (''paths'', JObj [])]
     = Inr [Finding ''error'' ''openapi'' ''Missing required 'openapi' version field'']
   \<and> validate_spec [(''openapi'', JStr ''3.0.0''),
                    (''info'', JObj [(''title'', JStr ''T''), (''description'', JStr ''d'')]),
                    (''paths'', JObj [])] = Inr []
   \<and> validate_spec [(''openapi'', JStr ''2.0''),
                    (''info'', JObj [(''title'', JStr ''T''), (''description'', JStr ''d'')]),
                    (''paths'', JObj [])]
     = Inr [Finding ''error'' ''openapi''
              ''Unsupported OpenAPI version: 2.0 (expected 3.0.x or 3.1.x)'']"
proof -
  let ?d = "[(''info'', JObj [(''title'', JStr ''T''), (''description'', JStr ''d'')]),
             (''paths'', JObj [])]"
  have a: "validate_spec ?d = Inr [Finding ''error'' ''openapi'' ''Missing required 'openapi' version field'']"
    by code_simp
  have b: "validate_spec ((''openapi'', JStr ''2.0'') # ?d)
     = Inr [Finding ''error'' ''openapi''
              ''Unsupported OpenAPI version: 2.0 (expected 3.0.x or 3.1.x)'']"
    by code_simp
  have na: "\<not> has_key ?d ''openapi''" by (simp add: has_key_def)
  have hb: "has_key ((''openapi'', JStr ''2.0'') # ?d) ''openapi''" by (simp add: has_key_def)
  from returned_version_findings [OF a] na returned_version_findings [OF b] hb a b
  show ?thesis by simp
qed

section \<open>HTTP method keys (lines 88 to 102)\<close>

lemma method_finding_inject:
  "method_finding p m = method_finding p' m' \<Longrightarrow> m = m'"
  by (simp add: method_finding_def Finding_def quoted_def)

lemma check_naming_fields:
  "f \<in> set (check_naming paths) \<Longrightarrow> severity f = ''warning'' \<and> path f = ''paths''"
  by (auto dest!: check_naming_shape simp: naming_finding_def Finding_def)

lemma check_unused_schemas_fields:
  "check_unused_schemas spec = Inr unused \<Longrightarrow> f \<in> set unused \<Longrightarrow>
     severity f = ''warning'' \<and> (\<exists>n. path f = ''components.schemas.'' @ n)"
  by (auto dest!: check_unused_schemas_shape simp: schema_finding_def Finding_def)

lemma method_finding_in_result:
  assumes "validate_spec spec = Inr fs"
  shows "method_finding path_key method_key \<in> set fs \<longleftrightarrow>
         method_finding path_key method_key \<in> set (check_methods (get_or spec ''paths'' (JObj [])))"
proof -
  let ?m = "method_finding path_key method_key"
  from assms obtain unused where u: "check_unused_schemas spec = Inr unused"
    and fs: "fs = check_version spec @ check_info (get spec ''info'') @ check_paths_present spec
             @ check_methods (get_or spec ''paths'' (JObj []))
             @ check_info_description (get spec ''info'')
             @ check_operations (get_or spec ''paths'' (JObj []))
             @ check_naming (get_or spec ''paths'' (JObj [])) @ unused"
    by (auto simp: validate_spec_Inr)
  have p: "path ?m = ''paths.'' @ path_key @ ''.'' @ method_key" and s: "severity ?m = ''error''"
    by (simp_all add: method_finding_def Finding_def)
  have 1: "?m \<notin> set (check_version spec)"
    using check_version_shape [of ?m spec] p by auto
  have 2: "?m \<notin> set (check_info (get spec ''info''))"
    using check_info_shape [of ?m] p by auto
  have 3: "?m \<notin> set (check_paths_present spec)"
    using check_paths_present_shape [of ?m spec] p by auto
  have 5: "?m \<notin> set (check_info_description (get spec ''info''))"
    using check_info_description_shape [of ?m] s by auto
  have 6: "?m \<notin> set (check_operations (get_or spec ''paths'' (JObj [])))"
    using check_operations_shape [of ?m] s by auto
  have 7: "?m \<notin> set (check_naming (get_or spec ''paths'' (JObj [])))"
    using check_naming_fields [of ?m] s by auto
  have 8: "?m \<notin> set unused"
    using check_unused_schemas_fields [OF u, of ?m] s by auto
  show ?thesis unfolding fs using 1 2 3 5 6 7 8 by simp
qed

text \<open>
  The method check, on every document for which \<open>validate_spec\<close> returns. When \<^verbatim>\<open>paths\<close> is a dict, for
  every entry of it whose value is a dict and every key of that value outside the five
  reserved keys: the error at \<^verbatim>\<open>paths.<pathKey>.<methodKey>\<close> whose message quotes the
  key as written is among the findings if and only if the lower-cased key is none of the
  eight HTTP methods.
\<close>

lemma returned_method_error:
  assumes "validate_spec spec = Inr fs"
    and "map_of spec ''paths'' = Some (JObj ps)"
    and "(path_key, JObj item) \<in> set ps"
    and "(method_key, operation) \<in> set item"
    and "method_key \<notin> {''parameters'', ''summary'', ''description'', ''servers'', ''$ref''}"
  shows "Finding ''error'' (''paths.'' @ path_key @ ''.'' @ method_key)
             (''Invalid HTTP method: '' @ [CHR 0x27] @ method_key @ [CHR 0x27]) \<in> set fs
         \<longleftrightarrow> lower method_key \<notin> {''get'', ''put'', ''post'', ''delete'', ''options'', ''head'', ''patch'', ''trace''}"
proof -
  have eq: "Finding ''error'' (''paths.'' @ path_key @ ''.'' @ method_key)
             (''Invalid HTTP method: '' @ [CHR 0x27] @ method_key @ [CHR 0x27])
            = method_finding path_key method_key"
    by (simp add: method_finding_def quoted_def)
  have paths: "get_or spec ''paths'' (JObj []) = JObj ps"
    using assms(2) by (simp add: get_or_def)
  have nr: "method_key \<notin> reserved_keys"
    using assms(5) by (simp add: reserved_keys_def)
  have "method_finding path_key method_key \<in> set (check_methods (JObj ps))
        \<longleftrightarrow> lower method_key \<notin> VALID_HTTP_METHODS"
  proof
    assume "method_finding path_key method_key \<in> set (check_methods (JObj ps))"
    from check_methods_shape [OF this] obtain p' m' where
      "lower m' \<notin> VALID_HTTP_METHODS" "method_finding path_key method_key = method_finding p' m'"
      by blast
    then show "lower method_key \<notin> VALID_HTTP_METHODS"
      by (auto dest: method_finding_inject)
  next
    assume "lower method_key \<notin> VALID_HTTP_METHODS"
    with assms(3,4) nr show "method_finding path_key method_key \<in> set (check_methods (JObj ps))"
      by (rule check_methods_member)
  qed
  then show ?thesis
    unfolding eq method_finding_in_result [OF assms(1)] paths
    by (simp add: VALID_HTTP_METHODS_def)
qed

lemma returned_method_error_example:
  "validate_spec [(''openapi'', JStr ''3.1.0''),
                  (''info'', JObj [(''title'', JStr ''T''), (''description'', JStr ''d'')]),
                  (''paths'', JObj [(''/x'', JObj [(''Foo'', JObj []), (''GET'', JNull),
                                                  (''parameters'', JArr [])])])]
     = Inr [Finding ''error'' ''paths./x.Foo'' (''Invalid HTTP method: '' @ [CHR 0x27] @ ''Foo'' @ [CHR 0x27])]
   \<and> Finding ''error'' ''paths./x.Foo'' (''Invalid HTTP method: '' @ [CHR 0x27] @ ''Foo'' @ [CHR 0x27])
       \<in> set [Finding ''error'' ''paths./x.Foo'' (''Invalid HTTP method: '' @ [CHR 0x27] @ ''Foo'' @ [CHR 0x27])]
   \<and> lower ''Foo'' = ''foo''
   \<and> lower ''GET'' = ''get''
   \<and> Finding ''error'' ''paths./x.GET'' (''Invalid HTTP method: '' @ [CHR 0x27] @ ''GET'' @ [CHR 0x27])
       \<notin> set [Finding ''error'' ''paths./x.Foo'' (''Invalid HTTP method: '' @ [CHR 0x27] @ ''Foo'' @ [CHR 0x27])]"
proof -
  let ?item = "[(''Foo'', JObj []), (''GET'', JNull), (''parameters'', JArr [])]"
  let ?ps = "[(''/x'', JObj ?item)]"
  let ?d = "[(''openapi'', JStr ''3.1.0''),
             (''info'', JObj [(''title'', JStr ''T''), (''description'', JStr ''d'')]),
             (''paths'', JObj ?ps)]"
  let ?fs = "[Finding ''error'' ''paths./x.Foo'' (''Invalid HTTP method: '' @ [CHR 0x27] @ ''Foo'' @ [CHR 0x27])]"
  have a: "validate_spec ?d = Inr ?fs" by code_simp
  have b: "map_of ?d ''paths'' = Some (JObj ?ps)" by simp
  have c: "(''/x'', JObj ?item) \<in> set ?ps" by simp
  have d1: "(''Foo'', JObj []) \<in> set ?item" by simp
  have d2: "(''GET'', JNull) \<in> set ?item" by simp
  have e1: "''Foo'' \<notin> {''parameters'', ''summary'', ''description'', ''servers'', ''$ref''}" by simp
  have e2: "''GET'' \<notin> {''parameters'', ''summary'', ''description'', ''servers'', ''$ref''}" by simp
  have l1: "lower ''Foo'' = ''foo''" by code_simp
  have l2: "lower ''GET'' = ''get''" by code_simp
  from returned_method_error [OF a b c d1 e1] returned_method_error [OF a b c d2 e2] a l1 l2
  show ?thesis by simp
qed

section \<open>A version that is not a string\<close>

text \<open>
  The text of the version, on every document for which \<open>validate_spec\<close> returns. The version test reads
  \<^verbatim>\<open>str\<close> of the value: with the number \<^verbatim>\<open>3.0\<close> there is no finding at path
  \<^verbatim>\<open>openapi\<close>; with \<^verbatim>\<open>null\<close> there is the version error, and its message names the
  text \<^verbatim>\<open>None\<close>; and for any value that is not a string the prefix test and the message
  use the \<^verbatim>\<open>repr\<close> of the value.
\<close>

lemma returned_version_text:
  assumes "validate_spec spec = Inr fs"
  shows "(map_of spec ''openapi'' = Some (JFloat ''3.0'') \<longrightarrow>
            filter (\<lambda>f. path f = ''openapi'') fs = [])
       \<and> (map_of spec ''openapi'' = Some JNull \<longrightarrow>
            filter (\<lambda>f. path f = ''openapi'') fs =
              [Finding ''error'' ''openapi''
                 ''Unsupported OpenAPI version: None (expected 3.0.x or 3.1.x)''])
       \<and> (\<forall>v. map_of spec ''openapi'' = Some v \<and> (\<forall>s. v \<noteq> JStr s) \<longrightarrow>
            filter (\<lambda>f. path f = ''openapi'') fs =
              (if startswith (py_repr v) ''3.0'' \<or> startswith (py_repr v) ''3.1'' then []
               else [Finding ''error'' ''openapi''
                       (''Unsupported OpenAPI version: '' @ py_repr v
                          @ '' (expected 3.0.x or 3.1.x)'')]))"
proof (intro conjI impI allI)
  assume "map_of spec ''openapi'' = Some (JFloat ''3.0'')"
  then show "filter (\<lambda>f. path f = ''openapi'') fs = []"
    unfolding openapi_findings [OF assms]
    by (simp add: check_version_def has_key_def get_def py_str_def startswith_def)
next
  assume "map_of spec ''openapi'' = Some JNull"
  then show "filter (\<lambda>f. path f = ''openapi'') fs =
              [Finding ''error'' ''openapi''
                 ''Unsupported OpenAPI version: None (expected 3.0.x or 3.1.x)'']"
    unfolding openapi_findings [OF assms]
    by (simp add: check_version_def has_key_def get_def py_str_def startswith_def
        unsupported_version_def)
next
  fix v
  assume "map_of spec ''openapi'' = Some v \<and> (\<forall>s. v \<noteq> JStr s)"
  then have "py_str (get spec ''openapi'') = py_repr v" "has_key spec ''openapi''"
    by (cases v; simp add: py_str_def get_def has_key_def)+
  then show "filter (\<lambda>f. path f = ''openapi'') fs =
              (if startswith (py_repr v) ''3.0'' \<or> startswith (py_repr v) ''3.1'' then []
               else [Finding ''error'' ''openapi''
                       (''Unsupported OpenAPI version: '' @ py_repr v
                          @ '' (expected 3.0.x or 3.1.x)'')])"
    unfolding openapi_findings [OF assms]
    by (simp add: check_version_def unsupported_version_def Let_def)
qed

lemma returned_version_text_example:
  "validate_spec [(''openapi'', JFloat ''3.0''),
                  (''info'', JObj [(''title'', JStr ''T''), (''description'', JStr ''d'')]),
                  (''paths'', JObj [])] = Inr []
   \<and> validate_spec [(''openapi'', JNull),
                    (''info'', JObj [(''title'', JStr ''T''), (''description'', JStr ''d'')]),
                    (''paths'', JObj [])]
       = Inr [Finding ''error'' ''openapi''
                ''Unsupported OpenAPI version: None (expected 3.0.x or 3.1.x)'']
   \<and> filter (\<lambda>f. path f = ''openapi'')
        [Finding ''error'' ''openapi''
                ''Unsupported OpenAPI version: None (expected 3.0.x or 3.1.x)'']
       = [Finding ''error'' ''openapi''
                ''Unsupported OpenAPI version: None (expected 3.0.x or 3.1.x)'']"
proof -
  let ?rest = "[(''info'', JObj [(''title'', JStr ''T''), (''description'', JStr ''d'')]),
                (''paths'', JObj [])]"
  have a: "validate_spec ((''openapi'', JFloat ''3.0'') # ?rest) = Inr []" by code_simp
  have b: "validate_spec ((''openapi'', JNull) # ?rest)
       = Inr [Finding ''error'' ''openapi''
                ''Unsupported OpenAPI version: None (expected 3.0.x or 3.1.x)'']" by code_simp
  have ma: "map_of ((''openapi'', JFloat ''3.0'') # ?rest) ''openapi'' = Some (JFloat ''3.0'')" by simp
  have mb: "map_of ((''openapi'', JNull) # ?rest) ''openapi'' = Some JNull" by simp
  from returned_version_text [OF a] ma returned_version_text [OF b] mb a b
  show ?thesis by simp
qed

section \<open>The reference index (lines 46 to 58 and 164 to 176)\<close>

lemma collect_refs_into_eq:
  "collect_refs_into j refs =
     (if \<forall>v \<in> ref_targets j. hashable v then Inr (refs \<union> ref_targets j) else Inl TypeError)"
  "collect_values kvs refs =
     (if \<forall>v \<in> ref_targets_values kvs. hashable v then Inr (refs \<union> ref_targets_values kvs)
      else Inl TypeError)"
  "collect_items xs refs =
     (if \<forall>v \<in> ref_targets_items xs. hashable v then Inr (refs \<union> ref_targets_items xs)
      else Inl TypeError)"
proof (induction j refs and kvs refs and xs refs
    rule: collect_refs_into_collect_values_collect_items.induct)
  case (1 kvs refs)
  show ?case
  proof (cases "has_key kvs ''$ref'' \<and> \<not> hashable (get kvs ''$ref'')")
    case True
    then show ?thesis by (auto simp: set_add_def)
  next
    case False
    then show ?thesis
      using 1 [of "if has_key kvs ''$ref'' then insert (get kvs ''$ref'') refs else refs"]
      by (auto simp: set_add_def)
  qed
next
  case (9 k v kvs refs)
  then show ?case by (auto split: sum.splits if_splits)
next
  case (11 v vs refs)
  then show ?case by (auto split: sum.splits if_splits)
qed simp_all

lemma collect_schema_refs_eq:
  "collect_schema_refs j =
     (if \<forall>v \<in> ref_targets j. hashable v then Inr (ref_targets j) else Inl TypeError)"
  by (simp add: collect_schema_refs_def collect_refs_into_eq)

lemma ref_targets_values_member:
  "(k, v) \<in> set kvs \<Longrightarrow> ref_targets v \<subseteq> ref_targets_values kvs"
  by (induction kvs) auto

lemma ref_targets_entry:
  "(k, v) \<in> set kvs \<Longrightarrow> ref_targets v \<subseteq> ref_targets (JObj kvs)"
  using ref_targets_values_member by fastforce

lemma ref_targets_lookup:
  "map_of kvs k = Some v \<Longrightarrow> ref_targets v \<subseteq> ref_targets (JObj kvs)"
  by (rule ref_targets_entry) (erule map_of_SomeD)

lemma check_methods_fields:
  "f \<in> set (check_methods paths) \<Longrightarrow>
     severity f = ''error'' \<and> (\<exists>rest. path f = ''paths.'' @ rest)"
  by (auto dest!: check_methods_shape simp: method_finding_def Finding_def)

lemma check_unused_schemas_Inr:
  assumes "map_of spec ''components'' = Some (JObj components)"
    and "map_of components ''schemas'' = Some (JObj schemas)"
    and "schemas \<noteq> []"
    and "check_unused_schemas spec = Inr unused"
  shows "unused = concat (map (check_schema (ref_targets (JObj spec))) (map fst schemas))"
  using assms
  by (auto simp: check_unused_schemas_def get_or_def collect_schema_refs_eq split: if_splits)

lemma schema_finding_path: "path (schema_finding n) = ''components.schemas.'' @ n"
  by (simp add: schema_finding_def Finding_def)

lemma schema_path_in_result:
  assumes "validate_spec spec = Inr fs" "f \<in> set fs" "path f = ''components.schemas.'' @ n"
  shows "\<exists>unused. check_unused_schemas spec = Inr unused \<and> f \<in> set unused"
proof -
  from assms(1) obtain unused where u: "check_unused_schemas spec = Inr unused"
    and fs: "fs = check_version spec @ check_info (get spec ''info'') @ check_paths_present spec
             @ check_methods (get_or spec ''paths'' (JObj []))
             @ check_info_description (get spec ''info'')
             @ check_operations (get_or spec ''paths'' (JObj []))
             @ check_naming (get_or spec ''paths'' (JObj [])) @ unused"
    by (auto simp: validate_spec_Inr)
  have 1: "f \<notin> set (check_version spec)"
    using check_version_shape [of f spec] assms(3) by auto
  have 2: "f \<notin> set (check_info (get spec ''info''))"
    using check_info_shape [of f] assms(3) by auto
  have 3: "f \<notin> set (check_paths_present spec)"
    using check_paths_present_shape [of f spec] assms(3) by auto
  have 4: "f \<notin> set (check_methods (get_or spec ''paths'' (JObj [])))"
    using check_methods_fields [of f] assms(3) by auto
  have 5: "f \<notin> set (check_info_description (get spec ''info''))"
    using check_info_description_shape [of f] assms(3) by auto
  have 6: "f \<notin> set (check_operations (get_or spec ''paths'' (JObj [])))"
    using check_operations_shape [of f] assms(3) by auto
  have 7: "f \<notin> set (check_naming (get_or spec ''paths'' (JObj [])))"
    using check_naming_fields [of f] assms(3) by auto
  from assms(2) 1 2 3 4 5 6 7 have "f \<in> set unused" unfolding fs by simp
  with u show ?thesis by blast
qed

text \<open>
  Claim C10. The index is collected over the whole document, the bodies of the schema
  definitions included: when \<^verbatim>\<open>#/components/schemas/S\<close> is the value of a \<^verbatim>\<open>$ref\<close> key
  anywhere inside the definition of some schema \<open>T\<close> under \<^verbatim>\<open>components.schemas\<close> (\<open>T\<close>
  may be \<open>S\<close> itself, or a schema nothing refers to), no finding that
  \<open>validate_spec\<close> returns is at path \<^verbatim>\<open>components.schemas.S\<close>: \<open>S\<close> counts as
  referenced.
\<close>

theorem reference_inside_schemas_counts:
  assumes "validate_spec spec = Inr fs"
    and "map_of spec ''components'' = Some (JObj components)"
    and "map_of components ''schemas'' = Some (JObj schemas)"
    and "(T, body) \<in> set schemas"
    and "JStr (''#/components/schemas/'' @ S) \<in> ref_targets body"
  shows "\<forall>f \<in> set fs. path f \<noteq> ''components.schemas.'' @ S"
proof
  fix f assume f: "f \<in> set fs"
  show "path f \<noteq> ''components.schemas.'' @ S"
  proof
    assume p: "path f = ''components.schemas.'' @ S"
    from schema_path_in_result [OF assms(1) f p] obtain unused
      where u: "check_unused_schemas spec = Inr unused" and fu: "f \<in> set unused" by blast
    from assms(4) have ne: "schemas \<noteq> []" by auto
    have un: "unused = concat (map (check_schema (ref_targets (JObj spec))) (map fst schemas))"
      by (rule check_unused_schemas_Inr [OF assms(2,3) ne u])
    from fu obtain n where n: "f = schema_finding n"
      "JStr (ref_string n) \<notin> ref_targets (JObj spec)"
      unfolding un by (auto simp: check_schema_def split: if_splits)
    from n(1) p have "n = S" by (simp add: schema_finding_path)
    have "ref_targets body \<subseteq> ref_targets (JObj schemas)"
      by (rule ref_targets_entry [OF assms(4)])
    also have "\<dots> \<subseteq> ref_targets (JObj components)"
      by (rule ref_targets_lookup [OF assms(3)])
    also have "\<dots> \<subseteq> ref_targets (JObj spec)"
      by (rule ref_targets_lookup [OF assms(2)])
    finally have "JStr (ref_string S) \<in> ref_targets (JObj spec)"
      using assms(5) by (auto simp: ref_string_def)
    with n(2) \<open>n = S\<close> show False by simp
  qed
qed

theorem reference_inside_schemas_counts_witness:
  "validate_spec
     [(''openapi'', JStr ''3.0.0''),
      (''info'', JObj [(''title'', JStr ''T''), (''description'', JStr ''d'')]),
      (''paths'', JObj []),
      (''components'', JObj [(''schemas'', JObj
          [(''A'', JObj [(''items'', JObj [(''$ref'', JStr ''#/components/schemas/A'')])]),
           (''B'', JObj [(''allOf'', JArr [JObj [(''$ref'', JStr ''#/components/schemas/C'')]])]),
           (''C'', JObj [])])])]
     = Inr [Finding ''warning'' ''components.schemas.B''
              (''Schema '' @ [CHR 0x27] @ ''B'' @ [CHR 0x27] @ '' is defined but never referenced'')]
   \<and> path (Finding ''warning'' ''components.schemas.B''
              (''Schema '' @ [CHR 0x27] @ ''B'' @ [CHR 0x27] @ '' is defined but never referenced''))
       \<noteq> ''components.schemas.A''
   \<and> path (Finding ''warning'' ''components.schemas.B''
              (''Schema '' @ [CHR 0x27] @ ''B'' @ [CHR 0x27] @ '' is defined but never referenced''))
       \<noteq> ''components.schemas.C''"
proof -
  let ?A = "JObj [(''items'', JObj [(''$ref'', JStr ''#/components/schemas/A'')])]"
  let ?B = "JObj [(''allOf'', JArr [JObj [(''$ref'', JStr ''#/components/schemas/C'')]])]"
  let ?schemas = "[(''A'', ?A), (''B'', ?B), (''C'', JObj [])]"
  let ?components = "[(''schemas'', JObj ?schemas)]"
  let ?d = "[(''openapi'', JStr ''3.0.0''),
      (''info'', JObj [(''title'', JStr ''T''), (''description'', JStr ''d'')]),
      (''paths'', JObj []),
      (''components'', JObj ?components)]"
  let ?fs = "[Finding ''warning'' ''components.schemas.B''
              (''Schema '' @ [CHR 0x27] @ ''B'' @ [CHR 0x27] @ '' is defined but never referenced'')]"
  have a: "validate_spec ?d = Inr ?fs" by code_simp
  have b: "map_of ?d ''components'' = Some (JObj ?components)" by simp
  have c: "map_of ?components ''schemas'' = Some (JObj ?schemas)" by simp
  have d1: "(''A'', ?A) \<in> set ?schemas" by simp
  have d2: "(''B'', ?B) \<in> set ?schemas" by simp
  have e1: "JStr (''#/components/schemas/'' @ ''A'') \<in> ref_targets ?A"
    by (simp add: has_key_def get_def)
  have e2: "JStr (''#/components/schemas/'' @ ''C'') \<in> ref_targets ?B"
    by (simp add: has_key_def get_def)
  from reference_inside_schemas_counts [OF a b c d1 e1]
    reference_inside_schemas_counts [OF a b c d2 e2] a
  show ?thesis by simp
qed

section \<open>When \<^verbatim>\<open>validate_spec\<close> raises\<close>

lemma error_unique: "(a :: error) = b"
  by (cases a, cases b) simp

lemma check_unused_schemas_raises_iff:
  "check_unused_schemas spec = Inl e \<longleftrightarrow>
     (\<exists>components schemas.
        get_or spec ''components'' (JObj []) = JObj components \<and>
        get_or components ''schemas'' (JObj []) = JObj schemas \<and> schemas \<noteq> [] \<and>
        (\<exists>v \<in> ref_targets (JObj spec). \<not> hashable v))"
proof -
  define R where "R = ref_targets (JObj spec)"
  have c: "collect_schema_refs (JObj spec) = (if \<forall>v \<in> R. hashable v then Inr R else Inl TypeError)"
    unfolding R_def by (rule collect_schema_refs_eq)
  show ?thesis
    unfolding R_def [symmetric] check_unused_schemas_def c
    by (auto simp: error_unique split: json.splits)
qed

lemma validate_spec_Inl:
  "validate_spec spec = Inl e \<longleftrightarrow> check_unused_schemas spec = Inl e"
  by (auto simp: validate_spec_def Let_def split: sum.splits)

lemma validate_spec_raises_iff:
  "validate_spec spec = Inl e \<longleftrightarrow>
     (\<exists>components schemas.
        get_or spec ''components'' (JObj []) = JObj components \<and>
        get_or components ''schemas'' (JObj []) = JObj schemas \<and> schemas \<noteq> [] \<and>
        (\<exists>v \<in> ref_targets (JObj spec). \<not> hashable v))"
  unfolding validate_spec_Inl by (rule check_unused_schemas_raises_iff)

text \<open>
  Claim C1 does not hold of the code. On the document
  \<^verbatim>\<open>{"components": {"schemas": {"A": {"$ref": []}}}}\<close> the call raises \<^verbatim>\<open>TypeError\<close> and
  returns no findings: \<^verbatim>\<open>components.schemas\<close> is a non-empty dict, so line 168 walks the
  document, and line 52 adds the value of \<^verbatim>\<open>$ref\<close>, a list, to a set.
  \<open>validate_spec_raises_iff\<close> above gives every document on which this happens.
\<close>

theorem validate_spec_raises_on_list_ref:
  "validate_spec
     [(''components'', JObj [(''schemas'', JObj [(''A'', JObj [(''$ref'', JArr [])])])])]
     = Inl TypeError"
  by code_simp

text \<open>
  Claim C3 does not hold of the code, for the same reason as claim C1. In the document
  \<^verbatim>\<open>{"components": {"schemas": {"A": {}}}, "x": {"$ref": {"$ref": "#/components/schemas/A"}}}\<close>
  the only \<^verbatim>\<open>$ref\<close> key that is reached without descending into the value of a
  \<^verbatim>\<open>$ref\<close> key maps to a dict, so the index of the claim does not hold the string
  \<^verbatim>\<open>#/components/schemas/A\<close> and the claim asks for a warning at
  \<^verbatim>\<open>components.schemas.A\<close>; the call raises \<^verbatim>\<open>TypeError\<close> instead.
  \<open>unused_schema_warning_iff\<close> below shows that the claim holds of every document on
  which the call returns.
\<close>

theorem unused_schema_check_raises:
  "validate_spec
     [(''components'', JObj [(''schemas'', JObj [(''A'', JObj [])])]),
      (''x'', JObj [(''$ref'', JObj [(''$ref'', JStr ''#/components/schemas/A'')])])]
     = Inl TypeError
   \<and> JStr ''#/components/schemas/A'' \<notin> spec_ref_index (JObj
     [(''components'', JObj [(''schemas'', JObj [(''A'', JObj [])])]),
      (''x'', JObj [(''$ref'', JObj [(''$ref'', JStr ''#/components/schemas/A'')])])])"
  by (simp add: validate_spec_raises_iff get_or_def has_key_def get_def)

lemma hashable_no_targets: "hashable v \<Longrightarrow> ref_targets v = {}"
  by (cases v) simp_all

lemma ref_index_agrees:
  "wf_json j \<Longrightarrow> (\<forall>v \<in> ref_targets j. hashable v) \<Longrightarrow> ref_targets j = spec_ref_index j"
  "wf_entries kvs \<Longrightarrow> (\<forall>v \<in> ref_targets_values kvs. hashable v) \<Longrightarrow>
     (\<forall>v. (''$ref'', v) \<in> set kvs \<longrightarrow> hashable v) \<Longrightarrow>
     ref_targets_values kvs = spec_ref_index_values kvs"
  "wf_items xs \<Longrightarrow> (\<forall>v \<in> ref_targets_items xs. hashable v) \<Longrightarrow>
     ref_targets_items xs = spec_ref_index_items xs"
proof (induction j and kvs and xs rule: wf_json_wf_entries_wf_items.induct)
  case (1 kvs)
  have "\<forall>v. (''$ref'', v) \<in> set kvs \<longrightarrow> hashable v"
  proof (intro allI impI)
    fix v assume "(''$ref'', v) \<in> set kvs"
    with 1(2) have "map_of kvs ''$ref'' = Some v" by simp
    then have "v \<in> ref_targets (JObj kvs)" by (simp add: has_key_def get_def)
    with 1(3) show "hashable v" by blast
  qed
  with 1 show ?case by auto
next
  case (5 k v kvs)
  then show ?case by (auto simp: hashable_no_targets)
qed auto

lemma unused_schema_warning_iff:
  assumes "wf_json (JObj spec)"
    and "validate_spec spec = Inr fs"
    and "map_of spec ''components'' = Some (JObj components)"
    and "map_of components ''schemas'' = Some (JObj schemas)"
    and "(S, body) \<in> set schemas"
  shows "schema_finding S \<in> set fs \<longleftrightarrow> JStr (ref_string S) \<notin> spec_ref_index (JObj spec)"
proof -
  from assms(5) have ne: "schemas \<noteq> []" by auto
  have g: "get_or spec ''components'' (JObj []) = JObj components"
    "get_or components ''schemas'' (JObj []) = JObj schemas"
    using assms(3,4) by (simp_all add: get_or_def)
  have h: "\<forall>v \<in> ref_targets (JObj spec). hashable v"
  proof (rule ccontr)
    assume "\<not> ?thesis"
    with g ne have "validate_spec spec = Inl TypeError"
      unfolding validate_spec_raises_iff by blast
    with assms(2) show False by simp
  qed
  have idx: "ref_targets (JObj spec) = spec_ref_index (JObj spec)"
    by (rule ref_index_agrees(1) [OF assms(1) h])
  from assms(2) obtain unused where u: "check_unused_schemas spec = Inr unused"
    by (auto simp: validate_spec_Inr)
  have un: "unused = concat (map (check_schema (ref_targets (JObj spec))) (map fst schemas))"
    by (rule check_unused_schemas_Inr [OF assms(3,4) ne u])
  have "schema_finding S \<in> set fs \<longleftrightarrow> schema_finding S \<in> set unused"
  proof
    assume "schema_finding S \<in> set fs"
    from schema_path_in_result [OF assms(2) this schema_finding_path] u
    show "schema_finding S \<in> set unused" by simp
  next
    assume "schema_finding S \<in> set unused"
    with assms(2) u show "schema_finding S \<in> set fs" by (auto simp: validate_spec_Inr)
  qed
  also have "\<dots> \<longleftrightarrow> JStr (ref_string S) \<notin> ref_targets (JObj spec)"
  proof
    assume "schema_finding S \<in> set unused"
    then obtain n where "schema_finding S = schema_finding n"
      "JStr (ref_string n) \<notin> ref_targets (JObj spec)"
      unfolding un by (auto simp: check_schema_def split: if_splits)
    then show "JStr (ref_string S) \<notin> ref_targets (JObj spec)"
      by (simp add: schema_finding_def Finding_def)
  next
    assume "JStr (ref_string S) \<notin> ref_targets (JObj spec)"
    with assms(5) show "schema_finding S \<in> set unused"
      unfolding un by (force simp: check_schema_def)
  qed
  finally show ?thesis unfolding idx .
qed

section \<open>Path naming (lines 144 to 161)\<close>

lemma validate_spec_returns_iff:
  "(\<exists>fs. validate_spec spec = Inr fs) \<longleftrightarrow>
     \<not> (\<exists>components schemas.
        get_or spec ''components'' (JObj []) = JObj components \<and>
        get_or components ''schemas'' (JObj []) = JObj schemas \<and> schemas \<noteq> [] \<and>
        (\<exists>v \<in> ref_targets (JObj spec). \<not> hashable v))"
  unfolding validate_spec_raises_iff [of spec TypeError, symmetric]
  by (cases "validate_spec spec") (auto simp: error_unique)

lemma scan_segments_eq:
  "scan_segments path_key segs (camel_paths, snake_paths) =
     (case find (\<lambda>seg. is_camel_case seg \<or> is_snake_case seg) segs of
        None \<Rightarrow> (camel_paths, snake_paths)
      | Some seg \<Rightarrow> if is_camel_case seg then (camel_paths @ [path_key], snake_paths)
                    else (camel_paths, snake_paths @ [path_key]))"
  by (induction segs) auto

lemma scan_paths_eq:
  "scan_paths path_keys (camel_paths, snake_paths) =
     (camel_paths @ filter camel_path path_keys, snake_paths @ filter snake_path path_keys)"
proof (induction path_keys arbitrary: camel_paths snake_paths)
  case Nil
  then show ?case by simp
next
  case (Cons k ks)
  show ?case
    by (cases "decisive_segment k")
      (simp_all add: scan_segments_eq camel_path_def snake_path_def Cons.IH
        decisive_segment_def [symmetric])
qed

lemma check_naming_eq:
  "check_naming (JObj ps) =
     (if (\<exists>k \<in> fst ` set ps. camel_path k) \<and> (\<exists>k \<in> fst ` set ps. snake_path k)
      then [naming_finding] else [])"
  by (auto simp: check_naming_def scan_paths_eq filter_empty_conv)

lemma path_segments_styles:
  "seg \<in> set (path_segments path_key) \<Longrightarrow>
     is_camel_case seg = search_lower_upper seg \<and> is_snake_case seg = (CHR ''_'' \<in> set seg)"
  by (simp add: path_segments_def is_camel_case_def is_snake_case_def)

lemma paths_warnings_in_result:
  assumes "validate_spec spec = Inr fs"
  shows "filter (\<lambda>f. severity f = ''warning'' \<and> path f = ''paths'') fs
           = check_naming (get_or spec ''paths'' (JObj []))"
proof -
  let ?P = "\<lambda>f. severity f = ''warning'' \<and> path f = ''paths''"
  from assms obtain unused where u: "check_unused_schemas spec = Inr unused"
    and fs: "fs = check_version spec @ check_info (get spec ''info'') @ check_paths_present spec
             @ check_methods (get_or spec ''paths'' (JObj []))
             @ check_info_description (get spec ''info'')
             @ check_operations (get_or spec ''paths'' (JObj []))
             @ check_naming (get_or spec ''paths'' (JObj [])) @ unused"
    by (auto simp: validate_spec_Inr)
  have 1: "filter ?P (check_version spec) = []"
    by (rule filter_none) (auto dest: check_version_shape)
  have 2: "filter ?P (check_info (get spec ''info'')) = []"
    by (rule filter_none) (auto dest: check_info_shape)
  have 3: "filter ?P (check_paths_present spec) = []"
    by (rule filter_none) (auto dest: check_paths_present_shape)
  have 4: "filter ?P (check_methods (get_or spec ''paths'' (JObj []))) = []"
    by (rule filter_none) (auto dest: check_methods_fields)
  have 5: "filter ?P (check_info_description (get spec ''info'')) = []"
    by (rule filter_none) (auto dest: check_info_description_shape)
  have 6: "filter ?P (check_operations (get_or spec ''paths'' (JObj []))) = []"
    by (rule filter_none) (auto dest!: check_operations_shape)
  have 7: "filter ?P (check_naming (get_or spec ''paths'' (JObj [])))
             = check_naming (get_or spec ''paths'' (JObj []))"
    by (rule filter_all) (auto dest: check_naming_fields)
  have 8: "filter ?P unused = []"
    by (rule filter_none) (auto dest!: check_unused_schemas_fields [OF u])
  show ?thesis
    unfolding fs by (simp only: filter_append 1 2 3 4 5 6 7 8 append_Nil2 append_Nil)
qed

text \<open>
  Claim C2 as amended, for the finding list \<open>validate_spec\<close> returns. When \<^verbatim>\<open>paths\<close> is a
  dict, a path key is classified by the first of its segments (split at \<^verbatim>\<open>/\<close>, empty
  segments and segments starting with \<^verbatim>\<open>{\<close> dropped) that has a lower-case letter directly
  before an upper-case one or has an underscore: camelCase when that segment has the
  lower-upper pair, snake_case otherwise, and not classified when there is no such segment.
  The findings hold exactly one warning at path \<^verbatim>\<open>paths\<close>, the naming warning, when some
  path key is camelCase and some path key is snake_case, and no warning at that path
  otherwise.
\<close>

theorem path_naming_warning:
  assumes "validate_spec spec = Inr fs"
    and "map_of spec ''paths'' = Some (JObj ps)"
  shows "filter (\<lambda>f. severity f = ''warning'' \<and> path f = ''paths'') fs =
           (if (\<exists>k \<in> fst ` set ps. camel_path k) \<and> (\<exists>k \<in> fst ` set ps. snake_path k)
            then [Finding ''warning'' ''paths''
                    ''Inconsistent path naming: mix of camelCase and snake_case detected'']
            else [])
         \<and> (\<forall>k. camel_path k \<longleftrightarrow>
                (\<exists>seg. find (\<lambda>seg. search_lower_upper seg \<or> CHR ''_'' \<in> set seg) (path_segments k)
                         = Some seg \<and> search_lower_upper seg))
         \<and> (\<forall>k. snake_path k \<longleftrightarrow>
                (\<exists>seg. find (\<lambda>seg. search_lower_upper seg \<or> CHR ''_'' \<in> set seg) (path_segments k)
                         = Some seg \<and> \<not> search_lower_upper seg))"
proof -
  have paths: "get_or spec ''paths'' (JObj []) = JObj ps"
    using assms(2) by (simp add: get_or_def)
  have d: "decisive_segment k =
            find (\<lambda>seg. search_lower_upper seg \<or> CHR ''_'' \<in> set seg) (path_segments k)" for k
    unfolding decisive_segment_def
    by (rule find_cong) (auto simp: path_segments_styles)
  have s: "decisive_segment k = Some seg \<Longrightarrow> is_camel_case seg = search_lower_upper seg" for k seg
    unfolding decisive_segment_def
    by (auto simp: find_Some_iff path_segments_styles dest!: nth_mem)
  have c: "camel_path k \<longleftrightarrow> (\<exists>seg. decisive_segment k = Some seg \<and> search_lower_upper seg)" for k
    by (cases "decisive_segment k") (auto simp: camel_path_def s)
  have n: "snake_path k \<longleftrightarrow> (\<exists>seg. decisive_segment k = Some seg \<and> \<not> search_lower_upper seg)" for k
    by (cases "decisive_segment k") (auto simp: snake_path_def s)
  show ?thesis
    unfolding paths_warnings_in_result [OF assms(1)] paths check_naming_eq
    using c n by (simp add: naming_finding_def d)
qed

text \<open>
  Claim C2 as stated does not hold. The path \<^verbatim>\<open>/get_user/getUser\<close> has a camelCase
  segment, so the claim classifies it camelCase, as it does \<^verbatim>\<open>/fooBar\<close>; with no
  snake_case path the claim expects no warning. The loop stops at the first segment,
  \<^verbatim>\<open>get_user\<close>, which is snake_case, and the warning is emitted.
\<close>

theorem path_naming_claim_counterexample:
  "validate_spec
     [(''openapi'', JStr ''3.0.0''),
      (''info'', JObj [(''title'', JStr ''T''), (''description'', JStr ''d'')]),
      (''paths'', JObj [(''/get_user/getUser'', JObj []), (''/fooBar'', JObj [])])]
     = Inr [Finding ''warning'' ''paths''
              ''Inconsistent path naming: mix of camelCase and snake_case detected'']
   \<and> claimed_camel ''/get_user/getUser''
   \<and> claimed_camel ''/fooBar''
   \<and> \<not> claimed_snake ''/get_user/getUser''
   \<and> \<not> claimed_snake ''/fooBar''
   \<and> \<not> claimed_naming_warning [''/get_user/getUser'', ''/fooBar'']"
  by code_simp

theorem path_naming_warning_witness:
  "validate_spec
     [(''openapi'', JStr ''3.0.0''),
      (''info'', JObj [(''title'', JStr ''T''), (''description'', JStr ''d'')]),
      (''paths'', JObj [(''/get_user/getUser'', JObj []), (''/fooBar'', JObj [])])]
     = Inr [Finding ''warning'' ''paths''
              ''Inconsistent path naming: mix of camelCase and snake_case detected'']
   \<and> snake_path ''/get_user/getUser''
   \<and> camel_path ''/fooBar''
   \<and> filter (\<lambda>f. severity f = ''warning'' \<and> path f = ''paths'')
        [Finding ''warning'' ''paths''
              ''Inconsistent path naming: mix of camelCase and snake_case detected'']
       = [Finding ''warning'' ''paths''
              ''Inconsistent path naming: mix of camelCase and snake_case detected'']
   \<and> validate_spec
     [(''openapi'', JStr ''3.0.0''),
      (''info'', JObj [(''title'', JStr ''T''), (''description'', JStr ''d'')]),
      (''paths'', JObj [(''/getUser'', JObj []), (''/getAllUsers'', JObj [])])]
     = Inr []
   \<and> \<not> snake_path ''/getUser''
   \<and> \<not> snake_path ''/getAllUsers''"
proof -
  let ?ps = "[(''/get_user/getUser'', JObj []), (''/fooBar'', JObj [])]"
  let ?qs = "[(''/getUser'', JObj []), (''/getAllUsers'', JObj [])]"
  let ?d = "\<lambda>ps. [(''openapi'', JStr ''3.0.0''),
      (''info'', JObj [(''title'', JStr ''T''), (''description'', JStr ''d'')]),
      (''paths'', JObj ps)]"
  have a: "validate_spec (?d ?ps) = Inr [Finding ''warning'' ''paths''
              ''Inconsistent path naming: mix of camelCase and snake_case detected'']"
    by code_simp
  have b: "validate_spec (?d ?qs) = Inr []" by code_simp
  have ma: "map_of (?d ?ps) ''paths'' = Some (JObj ?ps)" by simp
  have mb: "map_of (?d ?qs) ''paths'' = Some (JObj ?qs)" by simp
  have s: "snake_path ''/get_user/getUser''" "camel_path ''/fooBar''"
    "\<not> snake_path ''/getUser''" "\<not> snake_path ''/getAllUsers''"
    by code_simp+
  have c: "(\<exists>k \<in> fst ` set ?ps. camel_path k) \<and> (\<exists>k \<in> fst ` set ?ps. snake_path k)"
    using s(1,2) by simp
  have f: "filter (\<lambda>f. severity f = ''warning'' \<and> path f = ''paths'')
        [Finding ''warning'' ''paths''
              ''Inconsistent path naming: mix of camelCase and snake_case detected'']
       = [Finding ''warning'' ''paths''
              ''Inconsistent path naming: mix of camelCase and snake_case detected'']"
    using conjunct1 [OF path_naming_warning [OF a ma]] c by (simp only: simp_thms if_True)
  show ?thesis
    by (intro conjI) (rule a b s f)+
qed

section \<open>Findings lost when \<^verbatim>\<open>validate_spec\<close> raises\<close>

text \<open>
  Claim C6 does not hold of the code, through the raise of claim C1. The document
  \<^verbatim>\<open>{"components": {"schemas": {"A": {"$ref": []}}}}\<close> has no key \<^verbatim>\<open>openapi\<close>; lines 68
  and 69 append the error "Missing required 'openapi' version field", and line 52 then
  raises \<^verbatim>\<open>TypeError\<close>, so the call returns no finding at all.
  \<open>returned_version_findings\<close> above covers every document for which the call returns.
\<close>

theorem missing_version_error_lost:
  "\<not> has_key
       [(''components'', JObj [(''schemas'', JObj [(''A'', JObj [(''$ref'', JArr [])])])])]
       ''openapi''
   \<and> check_version
       [(''components'', JObj [(''schemas'', JObj [(''A'', JObj [(''$ref'', JArr [])])])])]
     = [Finding ''error'' ''openapi'' ''Missing required 'openapi' version field'']
   \<and> validate_spec
       [(''components'', JObj [(''schemas'', JObj [(''A'', JObj [(''$ref'', JArr [])])])])]
     = Inl TypeError"
  by code_simp

text \<open>
  Claim C7 does not hold of the code, through the raise of claim C1. In the document
  \<^verbatim>\<open>{"paths": {"/x": {"foo": {}}}, "components": {"schemas": {"A": {"$ref": []}}}}\<close> the
  key \<^verbatim>\<open>foo\<close> is not reserved and is no HTTP method; line 98 appends the error at
  \<^verbatim>\<open>paths./x.foo\<close>, and line 52 then raises \<^verbatim>\<open>TypeError\<close>, so the call returns no
  finding at all. \<open>returned_method_error\<close> above covers every document for which the call
  returns.
\<close>

theorem invalid_method_error_lost:
  "''foo'' \<notin> reserved_keys
   \<and> lower ''foo'' \<notin> VALID_HTTP_METHODS
   \<and> check_methods (JObj [(''/x'', JObj [(''foo'', JObj [])])])
     = [Finding ''error'' ''paths./x.foo'' (''Invalid HTTP method: '' @ [CHR 0x27] @ ''foo'' @ [CHR 0x27])]
   \<and> validate_spec
       [(''paths'', JObj [(''/x'', JObj [(''foo'', JObj [])])]),
        (''components'', JObj [(''schemas'', JObj [(''A'', JObj [(''$ref'', JArr [])])])])]
     = Inl TypeError"
  by code_simp

text \<open>
  Claim C9 does not hold of the code, through the raise of claim C1. In the document
  \<^verbatim>\<open>{"openapi": null, "components": {"schemas": {"A": {"$ref": []}}}}\<close> the version is
  \<^verbatim>\<open>null\<close>, whose text is \<^verbatim>\<open>None\<close>; line 73 appends the version error naming
  \<^verbatim>\<open>None\<close>, and line 52 then raises \<^verbatim>\<open>TypeError\<close>, so the call returns no finding at
  all. \<open>returned_version_text\<close> above covers every document for which the call returns.
\<close>

theorem null_version_error_lost:
  "py_str JNull = ''None''
   \<and> check_version
       [(''openapi'', JNull),
        (''components'', JObj [(''schemas'', JObj [(''A'', JObj [(''$ref'', JArr [])])])])]
     = [Finding ''error'' ''openapi''
          ''Unsupported OpenAPI version: None (expected 3.0.x or 3.1.x)'']
   \<and> validate_spec
       [(''openapi'', JNull),
        (''components'', JObj [(''schemas'', JObj [(''A'', JObj [(''$ref'', JArr [])])])])]
     = Inl TypeError"
  by code_simp

end
